theory Spec2Isabelle
  imports Complex_Main
begin

section \<open>Services carousel (app.component.ts)\<close>

text \<open>
  The root component keeps the index of the service panel on display, the auto-play
  switch and the handle of the interval timer that advances the carousel. The browser's
  timer table is part of the modelled state: \<open>timers\<close> holds the handles of the
  intervals that are running, \<open>next_timer\<close> the handle the next \<open>setInterval\<close> returns
  (browsers hand out positive handles). Indices are integers.
\<close>

definition services :: "string list" where
  "services = [''stickers'', ''game-assets'', ''websites'']"

record carousel =
  currentServiceIndex :: int
  isServicesAutoPlay :: bool
  servicesInterval :: "nat option"
  timers :: "nat list"
  next_timer :: nat

definition carousel_init :: carousel where
  "carousel_init = \<lparr>currentServiceIndex = 0, isServicesAutoPlay = True,
     servicesInterval = None, timers = [], next_timer = 1\<rparr>"

text \<open>\<open>if (this.servicesInterval)\<close>: an unset field and the handle 0 are falsy.\<close>

definition interval_truthy :: "nat option \<Rightarrow> bool" where
  "interval_truthy h = (case h of None \<Rightarrow> False | Some n \<Rightarrow> n \<noteq> 0)"

definition clearInterval :: "nat option \<Rightarrow> carousel \<Rightarrow> carousel" where
  "clearInterval h c = (case h of None \<Rightarrow> c | Some n \<Rightarrow> c\<lparr>timers := removeAll n (timers c)\<rparr>)"

definition startServicesAutoPlay :: "carousel \<Rightarrow> carousel" where
  "startServicesAutoPlay c =
     (if isServicesAutoPlay c
      then c\<lparr>servicesInterval := Some (next_timer c),
             timers := next_timer c # timers c,
             next_timer := Suc (next_timer c)\<rparr>
      else c)"

definition resetServicesAutoPlay :: "carousel \<Rightarrow> carousel" where
  "resetServicesAutoPlay c =
     startServicesAutoPlay
       (if interval_truthy (servicesInterval c) then clearInterval (servicesInterval c) c else c)"

definition goToService :: "int \<Rightarrow> carousel \<Rightarrow> carousel" where
  "goToService index c = resetServicesAutoPlay (c\<lparr>currentServiceIndex := index\<rparr>)"

definition previousService :: "carousel \<Rightarrow> carousel" where
  "previousService c =
     resetServicesAutoPlay
       (c\<lparr>currentServiceIndex :=
            (if currentServiceIndex c > 0 then currentServiceIndex c - 1
             else int (length services) - 1)\<rparr>)"

definition nextService :: "carousel \<Rightarrow> carousel" where
  "nextService c =
     resetServicesAutoPlay
       (c\<lparr>currentServiceIndex :=
            (if currentServiceIndex c < int (length services) - 1 then currentServiceIndex c + 1
             else 0)\<rparr>)"

definition toggleServicesAutoPlay :: "carousel \<Rightarrow> carousel" where
  "toggleServicesAutoPlay c =
     (let c1 = c\<lparr>isServicesAutoPlay := \<not> isServicesAutoPlay c\<rparr>
      in if isServicesAutoPlay c1 then startServicesAutoPlay c1
         else if interval_truthy (servicesInterval c1) then clearInterval (servicesInterval c1) c1
         else c1)"

text \<open>
  What can happen to the carousel: \<open>ngOnInit\<close>, which starts the auto-play; the three
  navigation calls; the auto-play toggle; and a tick of a running interval timer, whose
  callback is \<open>nextService\<close>.
\<close>

datatype carousel_op = Init | GoTo int | Previous | Next | Toggle | Tick

fun carousel_step :: "carousel \<Rightarrow> carousel_op \<Rightarrow> carousel" where
  "carousel_step c Init = startServicesAutoPlay c"
| "carousel_step c (GoTo i) = goToService i c"
| "carousel_step c Previous = previousService c"
| "carousel_step c Next = nextService c"
| "carousel_step c Toggle = toggleServicesAutoPlay c"
| "carousel_step c Tick = (if timers c = [] then c else nextService c)"

definition carousel_run :: "carousel_op list \<Rightarrow> carousel \<Rightarrow> carousel" where
  "carousel_run ops c = foldl carousel_step c ops"

fun valid_op :: "carousel_op \<Rightarrow> bool" where
  "valid_op (GoTo i) = (0 \<le> i \<and> i < int (length services))"
| "valid_op _ = True"

definition index_in_bounds :: "carousel \<Rightarrow> bool" where
  "index_in_bounds c = (0 \<le> currentServiceIndex c \<and> currentServiceIndex c < int (length services))"

section \<open>Section-tracking navigation (navigation.component.ts)\<close>

text \<open>
  The document and the window are the component's environment. An element is known by
  what the component reads of it: its bounding rectangle, relative to the viewport. A
  document answers \<open>querySelector\<close> for a selector string with its first match, if any.
  JavaScript numbers are idealised as reals.
\<close>

record element =
  elem_id :: nat
  rect_top :: real
  rect_height :: real

type_synonym document = "string \<Rightarrow> element option"

record window =
  scrollY :: real
  innerHeight :: real

record nav_item =
  label :: string
  path :: string
  scrollTarget :: string
  isActive :: bool

record navigation =
  navigationItems :: "nav_item list"
  isMobileMenuOpen :: bool
  currentActiveSection :: string

definition navigation_init :: navigation where
  "navigation_init = \<lparr>navigationItems =
       [\<lparr>label = ''Home'', path = ''#home'', scrollTarget = ''top'', isActive = False\<rparr>,
        \<lparr>label = ''Gallery'', path = ''#gallery'', scrollTarget = ''gallery-section'',
           isActive = False\<rparr>,
        \<lparr>label = ''Services'', path = ''#services'', scrollTarget = ''services-section'',
           isActive = False\<rparr>,
        \<lparr>label = ''About Me'', path = ''#about-me'', scrollTarget = ''about-me-section'',
           isActive = False\<rparr>],
     isMobileMenuOpen = False, currentActiveSection = ''top''\<rparr>"

text \<open>What a click makes the browser do, in order.\<close>

datatype nav_effect =
    ConsoleLog string
  | PreventDefault
  | ScrollToTop
  | ScrollIntoView element
  | ConsoleWarn string

definition setActiveSection :: "string \<Rightarrow> navigation \<Rightarrow> navigation" where
  "setActiveSection sectionId s =
     s\<lparr>currentActiveSection := sectionId,
       navigationItems :=
         map (\<lambda>item. item\<lparr>isActive := (scrollTarget item = sectionId)\<rparr>) (navigationItems s)\<rparr>"

text \<open>
  \<open>scrollToSection\<close> tries the id selector, then the class selector, then the target
  itself as a selector, and warns when none of them matches.
\<close>

definition resolve_target :: "document \<Rightarrow> string \<Rightarrow> element option" where
  "resolve_target doc sectionTarget =
     (let element = doc (''#'' @ sectionTarget);
          element = (if element = None then doc (''.'' @ sectionTarget) else element);
          element = (if element = None then doc sectionTarget else element)
      in element)"

definition not_found_message :: "string \<Rightarrow> string" where
  "not_found_message sectionTarget =
     ''Section with target '' @ [CHR 0x27] @ sectionTarget @ [CHR 0x27] @ '' not found''"

definition scrollToSection :: "document \<Rightarrow> string \<Rightarrow> nav_effect list" where
  "scrollToSection doc sectionTarget =
     (case resolve_target doc sectionTarget of
        Some e \<Rightarrow> [ScrollIntoView e]
      | None \<Rightarrow> [ConsoleWarn (not_found_message sectionTarget)])"

text \<open>
  \<open>onNavigationClick\<close> returns the effects on the browser and the new component state.
  The flag \<open>event\<close> says whether the optional event argument was passed. An empty
  scroll target is falsy and scrolls nowhere.
\<close>

definition onNavigationClick ::
  "document \<Rightarrow> bool \<Rightarrow> nav_item \<Rightarrow> navigation \<Rightarrow> nav_effect list \<times> navigation" where
  "onNavigationClick doc event item s =
     (let fx1 = [ConsoleLog (''Navigating to: '' @ path item)];
          fx2 = (if event then [PreventDefault] else []);
          fx3 = (if scrollTarget item = ''top'' then [ScrollToTop]
                 else if scrollTarget item \<noteq> [] then scrollToSection doc (scrollTarget item)
                 else []);
          s1 = s\<lparr>isMobileMenuOpen := False\<rparr>
      in (fx1 @ fx2 @ fx3, setActiveSection (scrollTarget item) s1))"

text \<open>
  The loop of \<open>updateActiveSection\<close> over the tracked sections: a section without an
  element is skipped, the first section whose bounds hold the viewport's middle ends the
  loop, and \<open>activeSection\<close> keeps its value when the loop runs out.
\<close>

fun section_loop ::
  "window \<Rightarrow> real \<Rightarrow> (string \<times> element option) list \<Rightarrow> string \<Rightarrow> string" where
  "section_loop w viewportMiddle [] activeSection = activeSection"
| "section_loop w viewportMiddle ((sid, None) # rest) activeSection =
     section_loop w viewportMiddle rest activeSection"
| "section_loop w viewportMiddle ((sid, Some e) # rest) activeSection =
     (let elementTop = rect_top e + scrollY w;
          elementBottom = elementTop + rect_height e
      in if viewportMiddle \<ge> elementTop \<and> viewportMiddle \<le> elementBottom then sid
         else section_loop w viewportMiddle rest activeSection)"

definition updateActiveSection :: "window \<Rightarrow> document \<Rightarrow> navigation \<Rightarrow> navigation" where
  "updateActiveSection w doc s =
     (let scrollPosition = scrollY w
      in if scrollPosition < 100 then setActiveSection ''top'' s
         else
           let sections =
                 [(''gallery-section'', doc ''#gallery-section''),
                  (''services-section'', doc ''#services-section''),
                  (''about-me-section'', doc ''#about-me-section'')];
               viewportMiddle = scrollY w + innerHeight w / 2;
               activeSection = section_loop w viewportMiddle sections ''top''
           in if activeSection \<noteq> currentActiveSection s then setActiveSection activeSection s
              else s)"

definition isItemActive :: "nav_item \<Rightarrow> bool" where
  "isItemActive item = isActive item"

subsection \<open>The active section as the specification words it\<close>

text \<open>
  Below a scroll offset of 100 the active section is the sentinel. Otherwise the tracked
  sections are taken in the order gallery, services, about-me, and the first one whose
  bounds in document coordinates hold the middle of the viewport is the active one; when
  there is none, the active section is the sentinel again.
\<close>

definition tracked_sections :: "string list" where
  "tracked_sections = [''gallery-section'', ''services-section'', ''about-me-section'']"

definition contains_midpoint :: "window \<Rightarrow> document \<Rightarrow> string \<Rightarrow> bool" where
  "contains_midpoint w doc sid =
     (case doc (''#'' @ sid) of
        None \<Rightarrow> False
      | Some e \<Rightarrow>
          scrollY w + rect_top e \<le> scrollY w + innerHeight w / 2
          \<and> scrollY w + innerHeight w / 2 \<le> scrollY w + rect_top e + rect_height e)"

definition spec_active_section :: "window \<Rightarrow> document \<Rightarrow> string" where
  "spec_active_section w doc =
     (if scrollY w < 100 then ''top''
      else case find (contains_midpoint w doc) tracked_sections of
             Some sid \<Rightarrow> sid
           | None \<Rightarrow> ''top'')"

text \<open>Two documents for the examples: one without any element, one with three sections.\<close>

definition empty_document :: document where
  "empty_document = (\<lambda>sel. None)"

definition page_document :: document where
  "page_document =
     (\<lambda>sel. if sel = ''#gallery-section'' then Some \<lparr>elem_id = 1, rect_top = 300, rect_height = 500\<rparr>
            else if sel = ''#services-section''
              then Some \<lparr>elem_id = 2, rect_top = 800, rect_height = 500\<rparr>
            else if sel = ''#about-me-section''
              then Some \<lparr>elem_id = 3, rect_top = 1300, rect_height = 500\<rparr>
            else None)"

section \<open>Particle lifecycle adapter (header-particles.component.ts)\<close>

text \<open>
  The particle engine is outside the component. The model records what the component
  asks of it, in order, in a trace, and takes what the engine answers as input: whether
  the module loads and the construction resolve or reject, which instance the
  construction produces, and which of the instance's methods throw.
\<close>

type_synonym cid = nat
type_synonym exn = string

datatype engine_method = Play | Stop | Destroy | Refresh

datatype effect =
    RegisterFeatures
  | Load
  | Call engine_method cid
  | ConsoleError exn

text \<open>The exception each engine method throws when called, if it throws.\<close>

record faults =
  play_throws :: "exn option"
  stop_throws :: "exn option"
  destroy_throws :: "exn option"

definition no_faults :: faults where
  "no_faults = \<lparr>play_throws = None, stop_throws = None, destroy_throws = None\<rparr>"

definition destroy_fails :: faults where
  "destroy_fails = \<lparr>play_throws = None, stop_throws = None, destroy_throws = Some ''gone''\<rparr>"

definition stop_fails :: faults where
  "stop_fails = \<lparr>play_throws = None, stop_throws = Some ''stuck'', destroy_throws = None\<rparr>"

fun throws :: "faults \<Rightarrow> engine_method \<Rightarrow> exn option" where
  "throws f Play = play_throws f"
| "throws f Stop = stop_throws f"
| "throws f Destroy = destroy_throws f"
| "throws f Refresh = None"

text \<open>
  The promise of the initialisation task. While it is pending, the task is suspended at
  one of two places: awaiting the module loads and \<open>enableFeatures\<close> (the six awaits
  before the first check of \<open>destroyed\<close>, between which the component's state is not
  read), or awaiting \<open>tsParticles.load\<close>.
\<close>

datatype phase = Loading | Constructing

datatype promise = Pending phase | Fulfilled "cid option" | Rejected exn

text \<open>
  The component's fields, the browser's table of scheduled animation-frame callbacks
  (\<open>frames\<close>, with \<open>next_frame\<close> the handle the next \<open>requestAnimationFrame\<close> returns) and
  the trace of effects, oldest first.
\<close>

record adapter =
  container :: "cid option"
  initPromise :: "promise option"
  destroyed :: bool
  resizeRaf :: "nat option"
  frames :: "nat list"
  next_frame :: nat
  trace :: "effect list"

definition adapter_init :: adapter where
  "adapter_init = \<lparr>container = None, initPromise = None, destroyed = False, resizeRaf = None,
     frames = [], next_frame = 1, trace = []\<rparr>"

text \<open>A method call on the instance: it is recorded, and it throws or not.\<close>

definition call :: "faults \<Rightarrow> engine_method \<Rightarrow> cid \<Rightarrow> adapter \<Rightarrow> exn option \<times> adapter" where
  "call f m k s = (throws f m, s\<lparr>trace := trace s @ [Call m k]\<rparr>)"

subsection \<open>Activation\<close>

text \<open>
  \<open>ngAfterViewInit\<close> up to its first suspension: outside a browser and with a promise
  already stored it returns at once; otherwise it stores the promise of the
  initialisation task, which starts by loading the engine's modules.
\<close>

definition ngAfterViewInit :: "bool \<Rightarrow> adapter \<Rightarrow> adapter" where
  "ngAfterViewInit isPlatformBrowser s =
     (if \<not> isPlatformBrowser then s
      else if initPromise s \<noteq> None then s
      else s\<lparr>initPromise := Some (Pending Loading), trace := trace s @ [RegisterFeatures]\<rparr>)"

text \<open>
  How a stretch of the task's body ends: with an exception, with a return value, or at
  the next await.
\<close>

datatype outcome = Thrown exn | Returned "cid option" | Awaiting phase

text \<open>
  The body from the end of the module loads to the construction request. The argument
  is the exception of a rejected load, if one was rejected.
\<close>

definition resume_loading :: "exn option \<Rightarrow> adapter \<Rightarrow> outcome \<times> adapter" where
  "resume_loading r s =
     (case r of
        Some e \<Rightarrow> (Thrown e, s)
      | None \<Rightarrow>
          if destroyed s then (Returned None, s)
          else (Awaiting Constructing, s\<lparr>trace := trace s @ [Load]\<rparr>))"

text \<open>
  The body from the settling of \<open>tsParticles.load\<close> to its end. The construction
  rejects with an exception or resolves with an instance or with nothing.
\<close>

definition resume_constructing ::
  "faults \<Rightarrow> exn + cid option \<Rightarrow> adapter \<Rightarrow> outcome \<times> adapter" where
  "resume_constructing f r s =
     (case r of
        Inl e \<Rightarrow> (Thrown e, s)
      | Inr c \<Rightarrow>
          if destroyed s then
            (case c of
               None \<Rightarrow> (Returned None, s)
             | Some k \<Rightarrow>
                 (case call f Destroy k s of
                    (Some e, s') \<Rightarrow> (Thrown e, s')
                  | (None, s') \<Rightarrow> (Returned None, s')))
          else
            let s1 = s\<lparr>container := c\<rparr>
            in (case container s1 of
                  None \<Rightarrow> (Returned (container s1), s1)
                | Some k \<Rightarrow>
                    (case call f Play k s1 of
                       (Some e, s') \<Rightarrow> (Thrown e, s')
                     | (None, s') \<Rightarrow> (Returned (container s'), s'))))"

text \<open>
  The \<open>try\<close>/\<open>catch\<close> around the whole body: an exception is logged and the task returns
  null. The promise is settled with what the task returns.
\<close>

definition settle :: "outcome \<times> adapter \<Rightarrow> adapter" where
  "settle r =
     (case r of
        (Thrown e, s) \<Rightarrow>
          s\<lparr>trace := trace s @ [ConsoleError e], initPromise := Some (Fulfilled None)\<rparr>
      | (Returned v, s) \<Rightarrow> s\<lparr>initPromise := Some (Fulfilled v)\<rparr>
      | (Awaiting ph, s) \<Rightarrow> s\<lparr>initPromise := Some (Pending ph)\<rparr>)"

subsection \<open>Resize\<close>

definition onWindowResized :: "adapter \<Rightarrow> adapter" where
  "onWindowResized s =
     (if container s = None then s
      else if resizeRaf s \<noteq> None then s
      else s\<lparr>resizeRaf := Some (next_frame s),
             frames := frames s @ [next_frame s],
             next_frame := Suc (next_frame s)\<rparr>)"

text \<open>The callback handed to \<open>requestAnimationFrame\<close>.\<close>

definition raf_callback :: "adapter \<Rightarrow> adapter" where
  "raf_callback s =
     (let s1 = s\<lparr>resizeRaf := None\<rparr>
      in case container s1 of
           None \<Rightarrow> s1
         | Some k \<Rightarrow> snd (call no_faults Refresh k s1))"

text \<open>A rendering frame: the browser runs every callback scheduled for it.\<close>

definition animation_frame :: "adapter \<Rightarrow> adapter" where
  "animation_frame s = foldl (\<lambda>s' h. raf_callback s') (s\<lparr>frames := []\<rparr>) (frames s)"

subsection \<open>Teardown\<close>

text \<open>The \<open>try\<close> block of \<open>ngOnDestroy\<close>: it ends at the first call that throws.\<close>

definition release_container :: "faults \<Rightarrow> adapter \<Rightarrow> exn option \<times> adapter" where
  "release_container f s =
     (case container s of
        None \<Rightarrow> (None, s)
      | Some k \<Rightarrow>
          (case call f Stop k s of
             (Some e, s') \<Rightarrow> (Some e, s')
           | (None, s') \<Rightarrow> call f Destroy k s'))"

text \<open>
  \<open>ngOnDestroy\<close> returns the exception that leaves the method, if any, and the new
  state. The \<open>catch\<close> clause ignores what the \<open>try\<close> block throws; the \<open>finally\<close>
  clause clears the reference.
\<close>

definition ngOnDestroy :: "faults \<Rightarrow> adapter \<Rightarrow> exn option \<times> adapter" where
  "ngOnDestroy f s =
     (let s1 = s\<lparr>destroyed := True\<rparr>;
          s2 = (case resizeRaf s1 of
                  None \<Rightarrow> s1
                | Some h \<Rightarrow> s1\<lparr>frames := removeAll h (frames s1), resizeRaf := None\<rparr>);
          (thrown, s3) = release_container f s2;
          escaped = (case thrown of Some e \<Rightarrow> None | None \<Rightarrow> None)
      in (escaped, s3\<lparr>container := None\<rparr>))"

subsection \<open>The component in its environment\<close>

text \<open>
  What can happen to one adapter: the view is initialised (in a browser or not); the
  module loads settle; the construction settles; the window is resized; a rendering
  frame comes; the view is destroyed. A settling arrives only where the task awaits it.
\<close>

datatype event =
    ViewInit bool
  | FeaturesSettle "exn option"
  | LoadSettle "exn + cid option" faults
  | WindowResize
  | AnimationFrame
  | ViewDestroy faults

fun step :: "adapter \<Rightarrow> event \<Rightarrow> adapter" where
  "step s (ViewInit b) = ngAfterViewInit b s"
| "step s (FeaturesSettle r) =
     (if initPromise s = Some (Pending Loading) then settle (resume_loading r s) else s)"
| "step s (LoadSettle r f) =
     (if initPromise s = Some (Pending Constructing) then settle (resume_constructing f r s)
      else s)"
| "step s WindowResize = onWindowResized s"
| "step s AnimationFrame = animation_frame s"
| "step s (ViewDestroy f) = snd (ngOnDestroy f s)"

definition run :: "event list \<Rightarrow> adapter \<Rightarrow> adapter" where
  "run evs s = foldl step s evs"

fun is_refresh :: "effect \<Rightarrow> bool" where
  "is_refresh (Call Refresh k) = True"
| "is_refresh _ = False"

definition refreshes :: "adapter \<Rightarrow> nat" where
  "refreshes s = length (filter is_refresh (trace s))"

fun is_teardown :: "event \<Rightarrow> bool" where
  "is_teardown (ViewDestroy f) = True"
| "is_teardown _ = False"

subsection \<open>Invariants of the adapter\<close>

text \<open>
  At most one animation-frame callback is scheduled, and it is the one whose handle the
  component holds.
\<close>

definition raf_inv :: "adapter \<Rightarrow> bool" where
  "raf_inv s = (frames s = (case resizeRaf s of None \<Rightarrow> [] | Some h \<Rightarrow> [h]))"

text \<open>A destroyed adapter holds no instance.\<close>

definition torn_inv :: "adapter \<Rightarrow> bool" where
  "torn_inv s = (destroyed s \<longrightarrow> container s = None)"

text \<open>
  The promise tells how far the one initialisation got: how often the modules were
  loaded and a construction was requested, and that no instance is held before the
  promise is fulfilled. The promise is never rejected.
\<close>

definition init_inv :: "adapter \<Rightarrow> bool" where
  "init_inv s =
     (case initPromise s of
        None \<Rightarrow>
          container s = None \<and> count_list (trace s) RegisterFeatures = 0
          \<and> count_list (trace s) Load = 0
      | Some (Pending Loading) \<Rightarrow>
          container s = None \<and> count_list (trace s) RegisterFeatures = 1
          \<and> count_list (trace s) Load = 0
      | Some (Pending Constructing) \<Rightarrow>
          container s = None \<and> count_list (trace s) RegisterFeatures = 1
          \<and> count_list (trace s) Load = 1
      | Some (Fulfilled v) \<Rightarrow>
          count_list (trace s) RegisterFeatures = 1 \<and> count_list (trace s) Load \<le> 1
      | Some (Rejected e) \<Rightarrow> False)"

text \<open>
  Every method call the adapter has made is on one and the same instance, the one it
  holds if it holds one; before the promise is fulfilled there is none.
\<close>

definition inst_inv :: "adapter \<Rightarrow> bool" where
  "inst_inv s =
     (case initPromise s of
        Some (Fulfilled v) \<Rightarrow>
          (\<exists>K. (\<forall>m k. Call m k \<in> set (trace s) \<longrightarrow> k = K)
             \<and> (\<forall>k. container s = Some k \<longrightarrow> k = K))
      | _ \<Rightarrow> (\<forall>m k. Call m k \<notin> set (trace s)) \<and> container s = None)"

section \<open>Particle motion extensions (header-particles.component.ts, enableFeatures)\<close>

text \<open>
  The two updaters read a particle's shape data and write its rotation; each keeps a
  clock of its own on the particle (\<open>__rock.t\<close> and \<open>__rockStep.t\<close>, absent until
  the first update). They compute with JavaScript numbers: doubles, with rounding,
  infinities and the value that is not a number. The model does not say what these
  numbers are. It takes the arithmetic as a parameter: a type of numbers with the
  integer literals, \<open>Math.PI\<close>, the operators \<open>+\<close>, \<open>-\<close>, \<open>*\<close>, \<open>/\<close> and \<open>%\<close>,
  \<open>Math.sin\<close> and the comparison \<open><\<close>. The updaters are translated operation by
  operation, and what is proved of them is proved for every arithmetic, that of the
  doubles included.
\<close>

record 'n arith =
  num_lit :: "int \<Rightarrow> 'n"
  num_pi :: 'n
  num_add :: "'n \<Rightarrow> 'n \<Rightarrow> 'n"
  num_sub :: "'n \<Rightarrow> 'n \<Rightarrow> 'n"
  num_mul :: "'n \<Rightarrow> 'n \<Rightarrow> 'n"
  num_div :: "'n \<Rightarrow> 'n \<Rightarrow> 'n"
  num_rem :: "'n \<Rightarrow> 'n \<Rightarrow> 'n"
  num_sin :: "'n \<Rightarrow> 'n"
  num_lt :: "'n \<Rightarrow> 'n \<Rightarrow> bool"

record 'n rockerSmooth_cfg =
  rs_enabled :: "bool option"
  minDeg :: "'n option"
  maxDeg :: "'n option"
  periodSec :: "'n option"

record 'n rockerStep_cfg =
  st_enabled :: "bool option"
  lowDeg :: "'n option"
  highDeg :: "'n option"
  holdSec :: "'n option"

record 'n image =
  rockerSmooth :: "'n rockerSmooth_cfg option"
  rockerStep :: "'n rockerStep_cfg option"

record 'n particle =
  shapeData :: "'n image option"
  rotation :: 'n
  rock :: "'n option"
  rockStep :: "'n option"

text \<open>The operator \<open>??\<close>: the left operand unless it is null or undefined.\<close>

definition coalesce :: "'a option \<Rightarrow> 'a \<Rightarrow> 'a" where
  "coalesce x d = (case x of None \<Rightarrow> d | Some v \<Rightarrow> v)"

subsection \<open>Smooth oscillation\<close>

definition rockerSmooth_isEnabled :: "'n particle \<Rightarrow> bool" where
  "rockerSmooth_isEnabled p =
     (case shapeData p of
        None \<Rightarrow> False
      | Some img \<Rightarrow>
          (case rockerSmooth img of None \<Rightarrow> False | Some cfg \<Rightarrow> rs_enabled cfg = Some True))"

text \<open>\<open>cfg = img?.rockerSmooth ?? {}\<close>\<close>

definition smooth_cfg :: "'n particle \<Rightarrow> 'n rockerSmooth_cfg" where
  "smooth_cfg p =
     coalesce (case shapeData p of None \<Rightarrow> None | Some img \<Rightarrow> rockerSmooth img)
       \<lparr>rs_enabled = None, minDeg = None, maxDeg = None, periodSec = None\<rparr>"

text \<open>The angle in degrees at clock reading \<open>t\<close>.\<close>

definition smooth_deg :: "'n arith \<Rightarrow> 'n rockerSmooth_cfg \<Rightarrow> 'n \<Rightarrow> 'n" where
  "smooth_deg A cfg t =
     (let a0 = coalesce (minDeg cfg) (num_lit A 0);
          a1 = coalesce (maxDeg cfg) (num_lit A 30);
          period = coalesce (periodSec cfg) (num_lit A 4);
          center = num_div A (num_add A a0 a1) (num_lit A 2);
          amp = num_div A (num_sub A a1 a0) (num_lit A 2);
          omega = num_div A (num_mul A (num_lit A 2) (num_pi A)) period
      in num_add A center (num_mul A amp (num_sin A (num_mul A omega t))))"

text \<open>
  The update for a frame of \<open>delta\<close> milliseconds. \<open>random\<close> is what \<open>Math.random()\<close>
  returns, used when the particle has no clock yet.
\<close>

definition update_rockerSmooth :: "'n arith \<Rightarrow> 'n \<Rightarrow> 'n particle \<Rightarrow> 'n \<Rightarrow> 'n particle" where
  "update_rockerSmooth A random p delta =
     (if \<not> rockerSmooth_isEnabled p then p
      else
        let cfg = smooth_cfg p;
            period = coalesce (periodSec cfg) (num_lit A 4);
            t0 = coalesce (rock p) (num_mul A random period);
            t = num_add A t0 (num_div A delta (num_lit A 1000));
            deg = smooth_deg A cfg t
        in p\<lparr>rock := Some t,
             rotation := num_div A (num_mul A deg (num_pi A)) (num_lit A 180)\<rparr>)"

subsection \<open>Stepped oscillation\<close>

definition rockerStep_isEnabled :: "'n particle \<Rightarrow> bool" where
  "rockerStep_isEnabled p =
     (case shapeData p of
        None \<Rightarrow> False
      | Some img \<Rightarrow>
          (case rockerStep img of None \<Rightarrow> False | Some cfg \<Rightarrow> st_enabled cfg = Some True))"

definition step_cfg :: "'n particle \<Rightarrow> 'n rockerStep_cfg" where
  "step_cfg p =
     coalesce (case shapeData p of None \<Rightarrow> None | Some img \<Rightarrow> rockerStep img)
       \<lparr>st_enabled = None, lowDeg = None, highDeg = None, holdSec = None\<rparr>"

definition step_deg :: "'n arith \<Rightarrow> 'n rockerStep_cfg \<Rightarrow> 'n \<Rightarrow> 'n" where
  "step_deg A cfg t =
     (let aLow = coalesce (lowDeg cfg) (num_lit A 0);
          aHigh = coalesce (highDeg cfg) (num_lit A 30);
          hold = coalesce (holdSec cfg) (num_lit A 2);
          cycle = num_mul A (num_lit A 2) hold;
          phase = num_rem A t cycle
      in if num_lt A phase hold then aLow else aHigh)"

definition update_rockerStep :: "'n arith \<Rightarrow> 'n particle \<Rightarrow> 'n \<Rightarrow> 'n particle" where
  "update_rockerStep A p delta =
     (if \<not> rockerStep_isEnabled p then p
      else
        let cfg = step_cfg p;
            t0 = coalesce (rockStep p) (num_lit A 0);
            t = num_add A t0 (num_div A delta (num_lit A 1000));
            deg = step_deg A cfg t
        in p\<lparr>rockStep := Some t,
             rotation := num_div A (num_mul A deg (num_pi A)) (num_lit A 180)\<rparr>)"

subsection \<open>The conversions as the specification words them\<close>

text \<open>
  An angle in degrees is converted to radians: times \<open>pi\<close>, over 180. A time in
  milliseconds is converted to seconds: over 1000.
\<close>

definition to_radians :: "'n arith \<Rightarrow> 'n \<Rightarrow> 'n" where
  "to_radians A deg = num_div A (num_mul A deg (num_pi A)) (num_lit A 180)"

definition to_seconds :: "'n arith \<Rightarrow> 'n \<Rightarrow> 'n" where
  "to_seconds A ms = num_div A ms (num_lit A 1000)"

subsection \<open>What the stepped oscillation needs of the arithmetic\<close>

text \<open>
  Three facts about comparison and remainder, all true of the doubles: no number is
  below itself (the value that is not a number is below nothing); \<open><\<close> is transitive;
  and the remainder of a number that is not negative by a greater one is that number,
  with no rounding.
\<close>

definition ordered_arith :: "'n arith \<Rightarrow> bool" where
  "ordered_arith A =
     ((\<forall>x. \<not> num_lt A x x)
      \<and> (\<forall>x y z. num_lt A x y \<and> num_lt A y z \<longrightarrow> num_lt A x z)
      \<and> (\<forall>x y. \<not> num_lt A x (num_lit A 0) \<and> num_lt A x y \<longrightarrow> num_rem A x y = x))"

subsection \<open>An arithmetic for the examples\<close>

text \<open>
  The arithmetic of the real numbers, without rounding, is one arithmetic among those
  the statements range over. The examples are evaluated in it, at inputs where no
  divisor is 0. Its remainder is that of the division truncated towards zero, as
  \<open>%\<close> is.
\<close>

definition real_rem :: "real \<Rightarrow> real \<Rightarrow> real" where
  "real_rem x y = x - y * of_int (if x / y \<ge> 0 then \<lfloor>x / y\<rfloor> else \<lceil>x / y\<rceil>)"

definition exact_arith :: "real arith" where
  "exact_arith = \<lparr>num_lit = of_int, num_pi = pi, num_add = (+), num_sub = (-), num_mul = (*),
     num_div = (/), num_rem = real_rem, num_sin = sin, num_lt = (<)\<rparr>"

text \<open>
  Two particles for the examples: a leaf as the component configures it (smooth
  oscillation between 0 and 25 degrees, period 3 seconds), and one with the stepped
  oscillation between 10 and 40 degrees, held for 2 seconds each.
\<close>

definition leaf :: "real particle" where
  "leaf = \<lparr>shapeData = Some \<lparr>rockerSmooth = Some \<lparr>rs_enabled = Some True, minDeg = Some 0,
               maxDeg = Some 25, periodSec = Some 3\<rparr>, rockerStep = None\<rparr>,
            rotation = 0, rock = None, rockStep = None\<rparr>"

definition stepper :: "real particle" where
  "stepper = \<lparr>shapeData = Some \<lparr>rockerSmooth = None, rockerStep = Some \<lparr>st_enabled = Some True,
               lowDeg = Some 10, highDeg = Some 40, holdSec = Some 2\<rparr>\<rparr>,
            rotation = 0, rock = None, rockStep = None\<rparr>"

section \<open>Properties\<close>

subsection \<open>Bounds of the carousel index\<close>

lemma resetServicesAutoPlay_index [simp]:
  "currentServiceIndex (resetServicesAutoPlay c) = currentServiceIndex c"
  by (simp add: resetServicesAutoPlay_def startServicesAutoPlay_def clearInterval_def
      split: option.splits)

lemma startServicesAutoPlay_index [simp]:
  "currentServiceIndex (startServicesAutoPlay c) = currentServiceIndex c"
  by (simp add: startServicesAutoPlay_def)

lemma toggleServicesAutoPlay_index [simp]:
  "currentServiceIndex (toggleServicesAutoPlay c) = currentServiceIndex c"
  by (simp add: toggleServicesAutoPlay_def startServicesAutoPlay_def clearInterval_def Let_def
      split: option.splits)

lemma carousel_step_bounds:
  "index_in_bounds c \<Longrightarrow> valid_op x \<Longrightarrow> index_in_bounds (carousel_step c x)"
  by (cases x)
    (auto simp: index_in_bounds_def goToService_def previousService_def nextService_def
      services_def)

lemma carousel_run_bounds:
  "index_in_bounds c \<Longrightarrow> \<forall>x \<in> set ops. valid_op x \<Longrightarrow> index_in_bounds (carousel_run ops c)"
  unfolding carousel_run_def
  by (induction ops arbitrary: c) (simp_all add: carousel_step_bounds)

text \<open>
  C10. Starting from the initial state, every sequence of \<open>nextService\<close>,
  \<open>previousService\<close> and \<open>goToService i\<close> with \<open>0 \<le> i < 3\<close> (and of \<open>ngOnInit\<close>,
  auto-play ticks and toggles) leaves \<open>currentServiceIndex\<close> inside the three-element services
  array; \<open>nextService\<close> at the last index wraps to 0 and \<open>previousService\<close> at index 0
  wraps to the last index.
\<close>

theorem carousel_index_bounded:
  assumes "\<forall>x \<in> set ops. valid_op x"
  shows "0 \<le> currentServiceIndex (carousel_run ops carousel_init)
       \<and> currentServiceIndex (carousel_run ops carousel_init) < 3
       \<and> length services = 3
       \<and> (\<forall>c. currentServiceIndex c = 2 \<longrightarrow> currentServiceIndex (nextService c) = 0)
       \<and> (\<forall>c. currentServiceIndex c = 0 \<longrightarrow> currentServiceIndex (previousService c) = 2)"
proof -
  have "index_in_bounds carousel_init"
    by (simp add: index_in_bounds_def carousel_init_def services_def)
  from carousel_run_bounds [OF this assms]
  have "index_in_bounds (carousel_run ops carousel_init)" .
  then show ?thesis
    by (simp add: index_in_bounds_def services_def nextService_def previousService_def)
qed

theorem carousel_index_bounded_witness:
  "list_all valid_op [Init, Next, Next, Next, Previous, GoTo 1, Tick, Toggle, Next]
   \<and> 0 \<le> currentServiceIndex
         (carousel_run [Init, Next, Next, Next, Previous, GoTo 1, Tick, Toggle, Next] carousel_init)
   \<and> currentServiceIndex
         (carousel_run [Init, Next, Next, Next, Previous, GoTo 1, Tick, Toggle, Next] carousel_init) < 3
   \<and> currentServiceIndex (carousel_run [Init, Next, Next] carousel_init) = 2
   \<and> currentServiceIndex (nextService (carousel_run [Init, Next, Next] carousel_init)) = 0
   \<and> currentServiceIndex carousel_init = 0
   \<and> currentServiceIndex (previousService carousel_init) = 2"
proof -
  have v: "\<forall>x \<in> set [Init, Next, Next, Next, Previous, GoTo 1, Tick, Toggle, Next]. valid_op x"
    by (simp add: services_def)
  have i2: "currentServiceIndex (carousel_run [Init, Next, Next] carousel_init) = 2"
    by (simp add: carousel_run_def nextService_def services_def carousel_init_def)
  have i0: "currentServiceIndex carousel_init = 0"
    by (simp add: carousel_init_def)
  note w = carousel_index_bounded [OF v]
  from w have n: "currentServiceIndex (nextService (carousel_run [Init, Next, Next] carousel_init)) = 0"
    using i2 by blast
  from w have p: "currentServiceIndex (previousService carousel_init) = 2"
    using i0 by blast
  from w v i2 i0 n p show ?thesis by (simp add: list_all_iff)
qed

subsection \<open>Navigation: clicks\<close>

lemma setActiveSection_current [simp]:
  "currentActiveSection (setActiveSection sid s) = sid"
  by (simp add: setActiveSection_def)

lemma setActiveSection_length [simp]:
  "length (navigationItems (setActiveSection sid s)) = length (navigationItems s)"
  by (simp add: setActiveSection_def)

lemma setActiveSection_nth:
  "j < length (navigationItems s) \<Longrightarrow>
   navigationItems (setActiveSection sid s) ! j =
     (navigationItems s ! j)\<lparr>isActive := (scrollTarget (navigationItems s ! j) = sid)\<rparr>"
  by (simp add: setActiveSection_def)

lemma onNavigationClick_state:
  "snd (onNavigationClick doc ev item s) =
     setActiveSection (scrollTarget item) (s\<lparr>isMobileMenuOpen := False\<rparr>)"
  by (simp add: onNavigationClick_def Let_def)

lemma onNavigationClick_warns:
  assumes "scrollTarget item \<noteq> ''top''" and "scrollTarget item \<noteq> []"
    and "resolve_target doc (scrollTarget item) = None"
  shows "ConsoleWarn (not_found_message (scrollTarget item))
           \<in> set (fst (onNavigationClick doc ev item s))"
  using assms by (simp add: onNavigationClick_def scrollToSection_def Let_def)

text \<open>
  C3, as the specification states it, fails: a click on the Gallery link in a document
  where no selector finds the target logs the warning, and still moves
  \<open>currentActiveSection\<close> from \<open>top\<close> to \<open>gallery-section\<close>.
\<close>

theorem onNavigationClick_unresolved_counterexample:
  "resolve_target empty_document (scrollTarget (navigationItems navigation_init ! 1)) = None
   \<and> ConsoleWarn (not_found_message ''gallery-section'')
       \<in> set (fst (onNavigationClick empty_document True
                     (navigationItems navigation_init ! 1) navigation_init))
   \<and> currentActiveSection navigation_init = ''top''
   \<and> currentActiveSection
        (snd (onNavigationClick empty_document True
                (navigationItems navigation_init ! 1) navigation_init)) = ''gallery-section''"
  by (simp add: onNavigationClick_def scrollToSection_def resolve_target_def
      empty_document_def navigation_init_def Let_def)

text \<open>
  C3, amended. A click on the \<open>k\<close>-th link of the list sets \<open>currentActiveSection\<close> to
  that link's scroll target, whether or not the target resolves; it makes that link the
  only active one (the links' scroll targets being distinct, as they are from
  construction on); and when the target is neither the sentinel nor empty and no
  selector resolves it, the warning is logged.
\<close>

theorem onNavigationClick_sets_active:
  assumes "k < length (navigationItems s)"
    and "distinct (map scrollTarget (navigationItems s))"
    and "item = navigationItems s ! k"
  shows "currentActiveSection (snd (onNavigationClick doc ev item s)) = scrollTarget item
       \<and> length (navigationItems (snd (onNavigationClick doc ev item s)))
           = length (navigationItems s)
       \<and> (\<forall>j < length (navigationItems s).
             isActive (navigationItems (snd (onNavigationClick doc ev item s)) ! j) = (j = k))
       \<and> (scrollTarget item \<noteq> ''top'' \<and> scrollTarget item \<noteq> []
            \<and> resolve_target doc (scrollTarget item) = None
          \<longrightarrow> ConsoleWarn (not_found_message (scrollTarget item))
                \<in> set (fst (onNavigationClick doc ev item s)))"
proof -
  let ?s' = "snd (onNavigationClick doc ev item s)"
  have flags: "isActive (navigationItems ?s' ! j) = (j = k)"
    if "j < length (navigationItems s)" for j
  proof -
    have "isActive (navigationItems ?s' ! j)
            = (scrollTarget (navigationItems s ! j) = scrollTarget (navigationItems s ! k))"
      using that assms(3) by (simp add: onNavigationClick_state setActiveSection_nth)
    also have "\<dots> = (j = k)"
    proof -
      have "(map scrollTarget (navigationItems s) ! j = map scrollTarget (navigationItems s) ! k)
              = (j = k)"
        by (rule nth_eq_iff_index_eq) (use that assms(1,2) in simp_all)
      then show ?thesis
        unfolding nth_map [OF that] nth_map [OF assms(1)] .
    qed
    finally show ?thesis .
  qed
  show ?thesis
    using flags onNavigationClick_warns [of item doc ev s]
    by (simp add: onNavigationClick_state)
qed

theorem onNavigationClick_sets_active_witness:
  "map isActive (navigationItems (snd (onNavigationClick empty_document True
        (navigationItems navigation_init ! 2) navigation_init))) = [False, False, True, False]
   \<and> currentActiveSection (snd (onNavigationClick empty_document True
        (navigationItems navigation_init ! 2) navigation_init)) = ''services-section''
   \<and> ConsoleWarn (not_found_message ''services-section'')
       \<in> set (fst (onNavigationClick empty_document True
                     (navigationItems navigation_init ! 2) navigation_init))"
proof -
  have k: "(2::nat) < length (navigationItems navigation_init)"
    by (simp add: navigation_init_def)
  have d: "distinct (map scrollTarget (navigationItems navigation_init))"
    by (simp add: navigation_init_def)
  have t: "scrollTarget (navigationItems navigation_init ! 2) = ''services-section''"
    by (simp add: navigation_init_def)
  have r: "resolve_target empty_document ''services-section'' = None"
    by (simp add: resolve_target_def empty_document_def)
  have n: "length (navigationItems navigation_init) = 4"
    by (simp add: navigation_init_def)
  note w = onNavigationClick_sets_active [OF k d refl, of empty_document True]
  let ?s' = "snd (onNavigationClick empty_document True
        (navigationItems navigation_init ! 2) navigation_init)"
  from w n have len: "length (navigationItems ?s') = 4" by simp
  from w n have fl: "\<forall>j<4. isActive (navigationItems ?s' ! j) = (j = 2)" by simp
  have "map isActive (navigationItems ?s') = [False, False, True, False]"
  proof (rule nth_equalityI)
    show "length (map isActive (navigationItems ?s')) = length [False, False, True, False]"
      using len by simp
  next
    fix i assume "i < length (map isActive (navigationItems ?s'))"
    then have i: "i < 4" using len by simp
    then have "i = 0 \<or> i = 1 \<or> i = 2 \<or> i = 3" by arith
    with fl len show "map isActive (navigationItems ?s') ! i = [False, False, True, False] ! i"
      by auto
  qed
  with w t r show ?thesis by simp
qed

subsection \<open>Navigation: the active section from the scroll position\<close>

lemma section_loop_find:
  "section_loop w (scrollY w + innerHeight w / 2) (map (\<lambda>sid. (sid, doc (''#'' @ sid))) sids) d
     = (case find (contains_midpoint w doc) sids of Some sid \<Rightarrow> sid | None \<Rightarrow> d)"
proof (induction sids)
  case Nil
  show ?case by simp
next
  case (Cons sid sids)
  show ?case
  proof (cases "doc (''#'' @ sid)")
    case None
    with Cons show ?thesis by (simp add: contains_midpoint_def)
  next
    case (Some e)
    with Cons show ?thesis
      by (simp add: contains_midpoint_def Let_def add.commute)
  qed
qed

lemma computed_section_spec:
  "section_loop w (scrollY w + innerHeight w / 2)
     [(''gallery-section'', doc ''#gallery-section''),
      (''services-section'', doc ''#services-section''),
      (''about-me-section'', doc ''#about-me-section'')] ''top''
   = (case find (contains_midpoint w doc) tracked_sections of Some sid \<Rightarrow> sid | None \<Rightarrow> ''top'')"
  using section_loop_find [of w doc tracked_sections "''top''"]
  by (simp add: tracked_sections_def)

text \<open>
  C4, as the specification states it, fails in its last clause: on the freshly
  constructed component at scroll offset 50 the computed section is \<open>top\<close>, which is the
  current one, and the state changes all the same (the Home link becomes active).
\<close>

theorem updateActiveSection_counterexample:
  "spec_active_section \<lparr>scrollY = 50, innerHeight = 800\<rparr> page_document
     = currentActiveSection navigation_init
   \<and> updateActiveSection \<lparr>scrollY = 50, innerHeight = 800\<rparr> page_document navigation_init
     \<noteq> navigation_init
   \<and> map isActive (navigationItems navigation_init) = [False, False, False, False]
   \<and> map isActive (navigationItems
        (updateActiveSection \<lparr>scrollY = 50, innerHeight = 800\<rparr> page_document navigation_init))
     = [True, False, False, False]"
proof -
  have m: "map isActive (navigationItems
        (updateActiveSection \<lparr>scrollY = 50, innerHeight = 800\<rparr> page_document navigation_init))
     = [True, False, False, False]"
    by (simp add: updateActiveSection_def setActiveSection_def navigation_init_def)
  have i: "map isActive (navigationItems navigation_init) = [False, False, False, False]"
    by (simp add: navigation_init_def)
  from m i have "updateActiveSection \<lparr>scrollY = 50, innerHeight = 800\<rparr> page_document
      navigation_init \<noteq> navigation_init"
    by auto
  with m i show ?thesis
    by (simp add: spec_active_section_def navigation_init_def)
qed

text \<open>
  C4, amended. The section \<open>updateActiveSection\<close> computes is the one the specification
  describes: the sentinel below offset 100, else the first of gallery, services,
  about-me whose bounds hold the viewport's middle, else the sentinel. Below offset 100
  \<open>setActiveSection\<close> is applied with the sentinel whatever the current section is; from
  offset 100 on the state is updated only when the computed section differs from the
  current one. Either way the current section afterwards is the computed one.
\<close>

theorem updateActiveSection_spec:
  "updateActiveSection w doc s =
     (if scrollY w < 100 then setActiveSection ''top'' s
      else if spec_active_section w doc \<noteq> currentActiveSection s
        then setActiveSection (spec_active_section w doc) s
        else s)
   \<and> currentActiveSection (updateActiveSection w doc s) = spec_active_section w doc"
  by (simp add: updateActiveSection_def Let_def computed_section_spec spec_active_section_def)

theorem updateActiveSection_spec_witness:
  "currentActiveSection
     (updateActiveSection \<lparr>scrollY = 600, innerHeight = 1800\<rparr> page_document navigation_init)
     = ''services-section''
   \<and> spec_active_section \<lparr>scrollY = 600, innerHeight = 1800\<rparr> page_document = ''services-section''
   \<and> spec_active_section \<lparr>scrollY = 600, innerHeight = 1600\<rparr> page_document = ''gallery-section''
   \<and> spec_active_section \<lparr>scrollY = 50, innerHeight = 1800\<rparr> page_document = ''top''
   \<and> spec_active_section \<lparr>scrollY = 600, innerHeight = 400\<rparr> page_document = ''top''"
proof -
  have a: "spec_active_section \<lparr>scrollY = 600, innerHeight = 1800\<rparr> page_document
             = ''services-section''"
    by (simp add: spec_active_section_def tracked_sections_def contains_midpoint_def
        page_document_def)
  have b: "spec_active_section \<lparr>scrollY = 600, innerHeight = 1600\<rparr> page_document
             = ''gallery-section''"
    by (simp add: spec_active_section_def tracked_sections_def contains_midpoint_def
        page_document_def)
  have c: "spec_active_section \<lparr>scrollY = 50, innerHeight = 1800\<rparr> page_document = ''top''"
    by (simp add: spec_active_section_def)
  have d: "spec_active_section \<lparr>scrollY = 600, innerHeight = 400\<rparr> page_document = ''top''"
    by (simp add: spec_active_section_def tracked_sections_def contains_midpoint_def
        page_document_def)
  from updateActiveSection_spec [of "\<lparr>scrollY = 600, innerHeight = 1800\<rparr>" page_document
      navigation_init] a b c d
  show ?thesis by simp
qed

subsection \<open>Particle lifecycle adapter\<close>

lemma raf_callback_fields [simp]:
  "container (raf_callback s) = container s"
  "destroyed (raf_callback s) = destroyed s"
  "initPromise (raf_callback s) = initPromise s"
  "frames (raf_callback s) = frames s"
  "next_frame (raf_callback s) = next_frame s"
  "resizeRaf (raf_callback s) = None"
  "trace (raf_callback s) = trace s @ (case container s of None \<Rightarrow> [] | Some k \<Rightarrow> [Call Refresh k])"
  by (simp_all add: raf_callback_def call_def Let_def split: option.splits)

lemma foldl_raf_fields:
  "container (foldl (\<lambda>s' h. raf_callback s') s hs) = container s
   \<and> destroyed (foldl (\<lambda>s' h. raf_callback s') s hs) = destroyed s
   \<and> initPromise (foldl (\<lambda>s' h. raf_callback s') s hs) = initPromise s
   \<and> frames (foldl (\<lambda>s' h. raf_callback s') s hs) = frames s
   \<and> next_frame (foldl (\<lambda>s' h. raf_callback s') s hs) = next_frame s
   \<and> resizeRaf (foldl (\<lambda>s' h. raf_callback s') s hs) = (if hs = [] then resizeRaf s else None)
   \<and> trace (foldl (\<lambda>s' h. raf_callback s') s hs)
       = trace s @ concat (replicate (length hs)
                    (case container s of None \<Rightarrow> [] | Some k \<Rightarrow> [Call Refresh k]))"
  by (induction hs arbitrary: s) simp_all

lemma animation_frame_fields [simp]:
  "container (animation_frame s) = container s"
  "destroyed (animation_frame s) = destroyed s"
  "initPromise (animation_frame s) = initPromise s"
  "frames (animation_frame s) = []"
  "next_frame (animation_frame s) = next_frame s"
  "resizeRaf (animation_frame s) = (if frames s = [] then resizeRaf s else None)"
  "trace (animation_frame s)
     = trace s @ concat (replicate (length (frames s))
                  (case container s of None \<Rightarrow> [] | Some k \<Rightarrow> [Call Refresh k]))"
  by (simp_all add: animation_frame_def foldl_raf_fields)

lemmas adapter_defs = ngAfterViewInit_def resume_loading_def resume_constructing_def settle_def
  onWindowResized_def release_container_def ngOnDestroy_def call_def

lemma raf_inv_step: "raf_inv s \<Longrightarrow> raf_inv (step s e)"
  by (cases e) (auto simp: raf_inv_def adapter_defs Let_def split: option.splits sum.splits prod.splits)

lemma torn_inv_step: "torn_inv s \<Longrightarrow> torn_inv (step s e)"
  by (cases e) (auto simp: torn_inv_def adapter_defs Let_def split: option.splits sum.splits prod.splits)

lemma init_inv_step: "init_inv s \<Longrightarrow> init_inv (step s e)"
  by (cases e) (auto simp: init_inv_def adapter_defs Let_def split: option.splits sum.splits prod.splits promise.splits phase.splits)

lemma refreshes_step:
  "raf_inv s \<Longrightarrow> refreshes (step s e) \<le> refreshes s + (if e = AnimationFrame then 1 else 0)"
  by (cases e) (auto simp: refreshes_def raf_inv_def adapter_defs Let_def split: option.splits sum.splits prod.splits)


lemma run_Nil [simp]: "run [] s = s"
  by (simp add: run_def)

lemma run_Cons [simp]: "run (e # evs) s = run evs (step s e)"
  by (simp add: run_def)

lemma run_append [simp]: "run (xs @ ys) s = run ys (run xs s)"
  by (simp add: run_def)

lemma raf_inv_run: "raf_inv s \<Longrightarrow> raf_inv (run evs s)"
  by (induction evs arbitrary: s) (simp_all add: raf_inv_step)

lemma torn_inv_run: "torn_inv s \<Longrightarrow> torn_inv (run evs s)"
  by (induction evs arbitrary: s) (simp_all add: torn_inv_step)

lemma init_inv_run: "init_inv s \<Longrightarrow> init_inv (run evs s)"
  by (induction evs arbitrary: s) (simp_all add: init_inv_step)

lemma adapter_init_inv: "raf_inv adapter_init" "torn_inv adapter_init" "init_inv adapter_init"
  by (simp_all add: raf_inv_def torn_inv_def init_inv_def adapter_init_def)

lemma inst_inv_step: "inst_inv s \<Longrightarrow> inst_inv (step s e)"
proof (cases e)
  case (ViewInit b)
  assume "inst_inv s"
  with ViewInit show ?thesis
    by (auto simp: inst_inv_def ngAfterViewInit_def split: option.splits promise.splits)
next
  case (FeaturesSettle r)
  assume "inst_inv s"
  with FeaturesSettle show ?thesis
    by (auto simp: inst_inv_def resume_loading_def settle_def split: option.splits)
next
  case (LoadSettle r f)
  assume "inst_inv s"
  with LoadSettle show ?thesis
    by (auto simp: inst_inv_def resume_constructing_def settle_def call_def Let_def
        split: option.splits sum.splits)
next
  case WindowResize
  assume "inst_inv s"
  with WindowResize show ?thesis
    by (auto simp: inst_inv_def onWindowResized_def split: option.splits promise.splits)
next
  case AnimationFrame
  assume "inst_inv s"
  with AnimationFrame show ?thesis
    by (auto simp: inst_inv_def split: option.splits promise.splits)
next
  case (ViewDestroy f)
  assume "inst_inv s"
  with ViewDestroy show ?thesis
    by (auto simp: inst_inv_def ngOnDestroy_def release_container_def call_def Let_def
        split: option.splits promise.splits prod.splits)
qed

lemma inst_inv_run: "inst_inv s \<Longrightarrow> inst_inv (run evs s)"
  by (induction evs arbitrary: s) (simp_all add: inst_inv_step)

lemma inst_inv_init: "inst_inv adapter_init"
  by (simp add: inst_inv_def adapter_init_def)

lemma inst_inv_same:
  assumes "inst_inv s" and "Call m k \<in> set (trace s)" and "Call m' k' \<in> set (trace s)"
  shows "k = k'"
proof (cases "initPromise s")
  case None
  with assms show ?thesis by (simp add: inst_inv_def)
next
  case (Some pr)
  show ?thesis
  proof (cases pr)
    case (Fulfilled v)
    with Some assms(1) obtain K where "\<forall>m k. Call m k \<in> set (trace s) \<longrightarrow> k = K"
      by (auto simp: inst_inv_def)
    with assms(2,3) have "k = K" and "k' = K" by blast+
    then show ?thesis by simp
  qed (use Some assms in \<open>auto simp: inst_inv_def\<close>)
qed

lemma refreshes_run:
  "raf_inv s \<Longrightarrow> refreshes (run evs s) \<le> refreshes s + count_list evs AnimationFrame"
proof (induction evs arbitrary: s)
  case Nil
  show ?case by simp
next
  case (Cons e evs)
  have "refreshes (run evs (step s e)) \<le> refreshes (step s e) + count_list evs AnimationFrame"
    using Cons.IH [OF raf_inv_step [OF Cons.prems]] .
  with refreshes_step [OF Cons.prems, of e] show ?case
    by (cases "e = AnimationFrame") (simp_all del: step.simps)
qed

lemma destroyed_step: "destroyed s \<Longrightarrow> destroyed (step s e)"
  by (cases e) (auto simp: adapter_defs Let_def split: option.splits sum.splits prod.splits)

lemma destroyed_run: "destroyed s \<Longrightarrow> destroyed (run evs s)"
  by (induction evs arbitrary: s) (simp_all add: destroyed_step)

lemma ngOnDestroy_destroyed [simp]: "destroyed (snd (ngOnDestroy f s))"
  by (simp add: adapter_defs Let_def split: option.splits prod.splits)

lemma teardown_run: "ViewDestroy g \<in> set evs \<Longrightarrow> destroyed (run evs s)"
proof (induction evs arbitrary: s)
  case Nil
  then show ?case by simp
next
  case (Cons e evs)
  show ?case
  proof (cases "e = ViewDestroy g")
    case True
    then show ?thesis by (simp add: destroyed_run)
  next
    case False
    with Cons show ?thesis by simp
  qed
qed

lemma initPromise_None_step:
  "initPromise (step s e) = None \<longleftrightarrow> initPromise s = None \<and> e \<noteq> ViewInit True"
  by (cases e) (auto simp: adapter_defs Let_def split: option.splits sum.splits prod.splits)

lemma initPromise_None_run:
  "initPromise (run evs s) = None \<longleftrightarrow> initPromise s = None \<and> ViewInit True \<notin> set evs"
  by (induction evs arbitrary: s) (auto simp: initPromise_None_step)

lemma fulfilled_step:
  "initPromise s = Some (Fulfilled v) \<Longrightarrow>
   initPromise (step s e) = Some (Fulfilled v)
   \<and> count_list (trace (step s e)) Load = count_list (trace s) Load
   \<and> count_list (trace (step s e)) RegisterFeatures = count_list (trace s) RegisterFeatures"
  by (cases e) (auto simp: adapter_defs Let_def split: option.splits sum.splits prod.splits)

lemma fulfilled_run:
  "initPromise s = Some (Fulfilled v) \<Longrightarrow>
   initPromise (run evs s) = Some (Fulfilled v)
   \<and> count_list (trace (run evs s)) Load = count_list (trace s) Load
   \<and> count_list (trace (run evs s)) RegisterFeatures = count_list (trace s) RegisterFeatures"
proof (induction evs arbitrary: s)
  case Nil
  then show ?case by simp
next
  case (Cons e evs)
  from fulfilled_step [OF Cons.prems, of e] Cons.IH [of "step s e"]
  show ?case by simp
qed

text \<open>
  C2. In the lifetime of one adapter, whatever happens to it, the initialisation is
  started exactly once if the view is ever initialised in a browser and never
  otherwise, and at most one construction is ever requested of the engine, so that at
  most one instance ever exists: every method call the adapter makes is on one and the
  same instance. A call of \<open>ngAfterViewInit\<close> while a promise is stored
  changes nothing, and neither does a call outside a browser.
\<close>

theorem single_initialization:
  "count_list (trace (run evs adapter_init)) RegisterFeatures
     = (if ViewInit True \<in> set evs then 1 else 0)
   \<and> count_list (trace (run evs adapter_init)) Load \<le> 1
   \<and> (\<forall>m k m' k'. Call m k \<in> set (trace (run evs adapter_init))
          \<and> Call m' k' \<in> set (trace (run evs adapter_init)) \<longrightarrow> k = k')
   \<and> (\<forall>s b. initPromise s \<noteq> None \<longrightarrow> ngAfterViewInit b s = s)
   \<and> (\<forall>s. ngAfterViewInit False s = s)"
proof -
  let ?s = "run evs adapter_init"
  have inv: "init_inv ?s"
    by (rule init_inv_run) (rule adapter_init_inv)
  have none: "initPromise ?s = None \<longleftrightarrow> ViewInit True \<notin> set evs"
    by (simp add: initPromise_None_run adapter_init_def)
  have a: "count_list (trace ?s) RegisterFeatures = (if ViewInit True \<in> set evs then 1 else 0)"
    using inv none
    by (auto simp: init_inv_def split: option.splits promise.splits phase.splits)
  have b: "count_list (trace ?s) Load \<le> 1"
    using inv by (auto simp: init_inv_def split: option.splits promise.splits phase.splits)
  have "inst_inv ?s"
    by (rule inst_inv_run) (rule inst_inv_init)
  then have c: "\<forall>m k m' k'. Call m k \<in> set (trace ?s) \<and> Call m' k' \<in> set (trace ?s) \<longrightarrow> k = k'"
    by (blast dest: inst_inv_same)
  from a b c show ?thesis by (simp add: ngAfterViewInit_def)
qed

text \<open>
  C5. However many resize notifications (and other events) arrive before a rendering
  frame, that frame calls \<open>refresh\<close> at most once; over a whole lifetime there are at
  most as many refreshes as frames. A resize while a refresh is scheduled changes
  nothing, and neither does a resize while there is no instance.
\<close>

theorem resize_coalesced:
  assumes "AnimationFrame \<notin> set burst"
  shows "refreshes (run (pre @ burst @ [AnimationFrame]) adapter_init)
           \<le> refreshes (run pre adapter_init) + 1
       \<and> refreshes (run pre adapter_init) \<le> count_list pre AnimationFrame
       \<and> (\<forall>s. resizeRaf s \<noteq> None \<longrightarrow> onWindowResized s = s)
       \<and> (\<forall>s. container s = None \<longrightarrow> onWindowResized s = s)"
proof -
  have inv: "raf_inv (run pre adapter_init)"
    by (rule raf_inv_run) (rule adapter_init_inv)
  have c: "count_list (burst @ [AnimationFrame]) AnimationFrame = 1"
    using assms by (simp add: count_list_0_iff)
  have a: "refreshes (run (pre @ burst @ [AnimationFrame]) adapter_init)
             \<le> refreshes (run pre adapter_init) + 1"
    using refreshes_run [OF inv, of "burst @ [AnimationFrame]"] c by simp
  have b: "refreshes (run pre adapter_init) \<le> count_list pre AnimationFrame"
    using refreshes_run [OF adapter_init_inv(1), of pre]
    by (simp add: refreshes_def adapter_init_def)
  from a b show ?thesis by (simp add: onWindowResized_def)
qed

text \<open>
  C6. A second \<open>ngOnDestroy\<close> after a first leaves the state as the first left it, trace
  of effects and scheduled callbacks included; no call of \<open>ngOnDestroy\<close> lets an
  exception out; and the reference is null after every call, whether or not \<open>stop\<close> or
  \<open>destroy\<close> threw.
\<close>

theorem ngOnDestroy_idempotent:
  "snd (ngOnDestroy g (snd (ngOnDestroy f s))) = snd (ngOnDestroy f s)
   \<and> fst (ngOnDestroy f s) = None
   \<and> fst (ngOnDestroy g (snd (ngOnDestroy f s))) = None
   \<and> container (snd (ngOnDestroy f s)) = None"
  by (simp add: ngOnDestroy_def release_container_def call_def Let_def
      split: option.splits prod.splits)


lemma fulfilled_container_step:
  "initPromise s = Some (Fulfilled v) \<Longrightarrow> container s = None \<Longrightarrow> container (step s e) = None"
  by (cases e) (auto simp: adapter_defs Let_def split: option.splits sum.splits prod.splits)

lemma fulfilled_container_run:
  "initPromise s = Some (Fulfilled v) \<Longrightarrow> container s = None \<Longrightarrow> container (run evs s) = None"
proof (induction evs arbitrary: s)
  case Nil
  then show ?case by simp
next
  case (Cons e evs)
  from fulfilled_step [OF Cons.prems(1), of e] fulfilled_container_step [OF Cons.prems, of e]
  show ?case by (simp add: Cons.IH)
qed

text \<open>
  C1, as the specification states it, fails: when the view is destroyed while the
  construction is in flight and the construction then produces instance 7, the adapter
  calls \<open>destroy\<close> on it and nothing else; \<open>stop\<close> is not called.
\<close>

theorem inflight_teardown_counterexample:
  "trace (run [ViewInit True, FeaturesSettle None, ViewDestroy no_faults,
               LoadSettle (Inr (Some 7)) no_faults] adapter_init)
     = [RegisterFeatures, Load, Call Destroy 7]
   \<and> Call Stop 7 \<notin> set (trace (run [ViewInit True, FeaturesSettle None, ViewDestroy no_faults,
               LoadSettle (Inr (Some 7)) no_faults] adapter_init))"
  by code_simp

text \<open>
  C1, amended. Once \<open>ngOnDestroy\<close> has been called: an instance that a construction
  still in flight produces is released by one call of \<open>destroy\<close>, without \<open>play\<close> and
  without \<open>stop\<close>, an exception of \<open>destroy\<close> is logged, and the promise is fulfilled
  with null; if the task was still loading modules, no construction is requested at
  all; and the reference is null from then on, whatever happens next.
\<close>

theorem teardown_before_construction:
  assumes "ViewDestroy g \<in> set pre"
  shows "(initPromise (run pre adapter_init) = Some (Pending Constructing) \<longrightarrow>
            trace (run (pre @ [LoadSettle (Inr (Some k)) f]) adapter_init)
              = trace (run pre adapter_init)
                @ Call Destroy k # (case destroy_throws f of None \<Rightarrow> [] | Some e \<Rightarrow> [ConsoleError e])
            \<and> initPromise (run (pre @ [LoadSettle (Inr (Some k)) f]) adapter_init)
              = Some (Fulfilled None))
       \<and> (initPromise (run pre adapter_init) = Some (Pending Loading) \<longrightarrow>
            trace (run (pre @ [FeaturesSettle None]) adapter_init) = trace (run pre adapter_init)
            \<and> initPromise (run (pre @ [FeaturesSettle None]) adapter_init)
              = Some (Fulfilled None))
       \<and> container (run (pre @ post) adapter_init) = None"
proof -
  let ?s = "run pre adapter_init"
  have d: "destroyed ?s"
    using assms by (rule teardown_run)
  have "destroyed (run (pre @ post) adapter_init)"
    using assms by (intro teardown_run [of g]) simp
  moreover have "torn_inv (run (pre @ post) adapter_init)"
    by (rule torn_inv_run) (rule adapter_init_inv)
  ultimately have c: "container (run (pre @ post) adapter_init) = None"
    by (simp add: torn_inv_def)
  from d c show ?thesis
    by (simp add: resume_constructing_def resume_loading_def settle_def call_def
        split: option.splits)
qed

theorem teardown_before_construction_witness:
  "trace (run ([ViewInit True, FeaturesSettle None, ViewDestroy no_faults]
               @ [LoadSettle (Inr (Some 7)) destroy_fails]) adapter_init)
     = [RegisterFeatures, Load, Call Destroy 7, ConsoleError ''gone'']
   \<and> container (run ([ViewInit True, FeaturesSettle None, ViewDestroy no_faults]
               @ [LoadSettle (Inr (Some 7)) destroy_fails, WindowResize, AnimationFrame])
               adapter_init) = None
   \<and> trace (run ([ViewInit True, ViewDestroy no_faults] @ [FeaturesSettle None]) adapter_init)
     = [RegisterFeatures]"
proof -
  have d: "ViewDestroy no_faults \<in> set [ViewInit True, FeaturesSettle None, ViewDestroy no_faults]"
    by simp
  have p: "initPromise (run [ViewInit True, FeaturesSettle None, ViewDestroy no_faults]
             adapter_init) = Some (Pending Constructing)"
    by code_simp
  have t: "trace (run [ViewInit True, FeaturesSettle None, ViewDestroy no_faults] adapter_init)
             = [RegisterFeatures, Load]"
    by code_simp
  have f: "destroy_throws destroy_fails = Some ''gone''"
    by (simp add: destroy_fails_def)
  have d': "ViewDestroy no_faults \<in> set [ViewInit True, ViewDestroy no_faults]"
    by simp
  have p': "initPromise (run [ViewInit True, ViewDestroy no_faults] adapter_init)
             = Some (Pending Loading)"
    by code_simp
  have t': "trace (run [ViewInit True, ViewDestroy no_faults] adapter_init) = [RegisterFeatures]"
    by code_simp
  from teardown_before_construction [OF d, of 7 destroy_fails
      "[LoadSettle (Inr (Some 7)) destroy_fails, WindowResize, AnimationFrame]"] p t f
    teardown_before_construction [OF d', of 7 destroy_fails "[]"] p' t'
  show ?thesis by (simp del: run_Cons run_Nil run_append)
qed

text \<open>
  C8, as the specification states it, fails: when the construction resolves to null,
  nothing is logged.
\<close>

theorem construction_null_counterexample:
  "trace (run [ViewInit True, FeaturesSettle None, LoadSettle (Inr None) no_faults] adapter_init)
     = [RegisterFeatures, Load]
   \<and> initPromise (run [ViewInit True, FeaturesSettle None, LoadSettle (Inr None) no_faults]
        adapter_init) = Some (Fulfilled None)"
  by code_simp

text \<open>
  C8, amended. When the construction rejects, the exception is logged; when it resolves
  to null, nothing is logged. In both cases the adapter holds no instance then and
  later, the promise is fulfilled with null (not rejected, so that nothing reaches the
  caller of \<open>ngAfterViewInit\<close>), and neither the module loads nor the construction are
  ever started again.
\<close>

theorem construction_failure:
  assumes "initPromise (run pre adapter_init) = Some (Pending Constructing)"
    and "r = Inl e \<or> r = Inr None"
  shows "trace (run (pre @ [LoadSettle r f]) adapter_init)
           = trace (run pre adapter_init) @ (case r of Inl x \<Rightarrow> [ConsoleError x] | Inr c \<Rightarrow> [])
       \<and> container (run (pre @ LoadSettle r f # post) adapter_init) = None
       \<and> initPromise (run (pre @ LoadSettle r f # post) adapter_init) = Some (Fulfilled None)
       \<and> count_list (trace (run (pre @ LoadSettle r f # post) adapter_init)) Load = 1
       \<and> count_list (trace (run (pre @ LoadSettle r f # post) adapter_init)) RegisterFeatures = 1"
proof -
  let ?s = "run pre adapter_init"
  let ?s' = "step ?s (LoadSettle r f)"
  have inv: "init_inv ?s"
    by (rule init_inv_run) (rule adapter_init_inv)
  with assms(1) have pre: "container ?s = None" "count_list (trace ?s) Load = 1"
    "count_list (trace ?s) RegisterFeatures = 1"
    by (simp_all add: init_inv_def)
  have tr: "trace ?s' = trace ?s @ (case r of Inl x \<Rightarrow> [ConsoleError x] | Inr c \<Rightarrow> [])"
    using assms by (auto simp: resume_constructing_def settle_def)
  have ful: "initPromise ?s' = Some (Fulfilled None)"
    using assms by (auto simp: resume_constructing_def settle_def)
  have con: "container ?s' = None"
    using assms pre(1) by (auto simp: resume_constructing_def settle_def)
  have cnt: "count_list (trace ?s') Load = 1" "count_list (trace ?s') RegisterFeatures = 1"
    using assms(2) pre(2,3) tr by auto
  from fulfilled_run [OF ful, of post] fulfilled_container_run [OF ful con, of post] tr cnt
  show ?thesis by simp
qed

theorem construction_failure_witness:
  "trace (run ([ViewInit True, FeaturesSettle None] @ [LoadSettle (Inl ''no image'') no_faults])
       adapter_init) = [RegisterFeatures, Load, ConsoleError ''no image'']
   \<and> trace (run ([ViewInit True, FeaturesSettle None] @ [LoadSettle (Inr None) no_faults])
       adapter_init) = [RegisterFeatures, Load]
   \<and> container (run ([ViewInit True, FeaturesSettle None]
       @ LoadSettle (Inl ''no image'') no_faults # [ViewInit True, FeaturesSettle None, WindowResize])
       adapter_init) = None
   \<and> count_list (trace (run ([ViewInit True, FeaturesSettle None]
       @ LoadSettle (Inl ''no image'') no_faults # [ViewInit True, FeaturesSettle None, WindowResize])
       adapter_init)) Load = 1"
proof -
  have p: "initPromise (run [ViewInit True, FeaturesSettle None] adapter_init)
             = Some (Pending Constructing)"
    by code_simp
  have t: "trace (run [ViewInit True, FeaturesSettle None] adapter_init)
             = [RegisterFeatures, Load]"
    by code_simp
  from construction_failure [OF p, of "Inl ''no image''" "''no image''" no_faults
      "[ViewInit True, FeaturesSettle None, WindowResize]"]
    construction_failure [OF p, of "Inr None" "''no image''" no_faults "[]"] t
  show ?thesis by (simp del: run_Cons run_Nil run_append)
qed

theorem single_initialization_witness:
  "count_list (trace (run [ViewInit False, ViewInit True, ViewInit True, FeaturesSettle None,
       ViewInit True, LoadSettle (Inr (Some 7)) no_faults, ViewInit True] adapter_init))
     RegisterFeatures = 1
   \<and> count_list (trace (run [ViewInit False, ViewInit False] adapter_init)) RegisterFeatures = 0
   \<and> initPromise (run [ViewInit True] adapter_init) = Some (Pending Loading)
   \<and> ngAfterViewInit True (run [ViewInit True] adapter_init) = run [ViewInit True] adapter_init"
proof -
  note w = single_initialization [of "[ViewInit False, ViewInit True, ViewInit True,
       FeaturesSettle None, ViewInit True, LoadSettle (Inr (Some 7)) no_faults, ViewInit True]"]
  note w0 = single_initialization [of "[ViewInit False, ViewInit False]"]
  have p: "initPromise (run [ViewInit True] adapter_init) = Some (Pending Loading)"
    by code_simp
  then have "initPromise (run [ViewInit True] adapter_init) \<noteq> None"
    by (simp del: run_Cons run_Nil)
  with w have g: "ngAfterViewInit True (run [ViewInit True] adapter_init)
      = run [ViewInit True] adapter_init"
    by blast
  from w w0 p g show ?thesis
    by (simp del: run_Cons run_Nil)
qed

theorem resize_coalesced_witness:
  "refreshes (run ([ViewInit True, FeaturesSettle None, LoadSettle (Inr (Some 7)) no_faults]
       @ [WindowResize, WindowResize, WindowResize] @ [AnimationFrame]) adapter_init) = 1
   \<and> refreshes (run [ViewInit True, FeaturesSettle None, LoadSettle (Inr (Some 7)) no_faults]
       adapter_init) = 0
   \<and> resizeRaf (run [ViewInit True, FeaturesSettle None, LoadSettle (Inr (Some 7)) no_faults,
       WindowResize] adapter_init) = Some 1
   \<and> onWindowResized (run [ViewInit True, FeaturesSettle None,
       LoadSettle (Inr (Some 7)) no_faults, WindowResize] adapter_init)
     = run [ViewInit True, FeaturesSettle None, LoadSettle (Inr (Some 7)) no_faults,
       WindowResize] adapter_init
   \<and> container adapter_init = None
   \<and> onWindowResized adapter_init = adapter_init"
proof -
  have b: "AnimationFrame \<notin> set [WindowResize, WindowResize, WindowResize]"
    by simp
  have z: "refreshes (run [ViewInit True, FeaturesSettle None,
       LoadSettle (Inr (Some 7)) no_faults] adapter_init) = 0"
    by code_simp
  have o: "1 \<le> refreshes (run ([ViewInit True, FeaturesSettle None,
       LoadSettle (Inr (Some 7)) no_faults]
       @ [WindowResize, WindowResize, WindowResize] @ [AnimationFrame]) adapter_init)"
    by code_simp
  have r: "resizeRaf (run [ViewInit True, FeaturesSettle None,
       LoadSettle (Inr (Some 7)) no_faults, WindowResize] adapter_init) = Some 1"
    by code_simp
  have c: "container adapter_init = None"
    by (simp add: adapter_init_def)
  note w = resize_coalesced [OF b, of "[ViewInit True, FeaturesSettle None,
       LoadSettle (Inr (Some 7)) no_faults]"]
  from r have "resizeRaf (run [ViewInit True, FeaturesSettle None,
       LoadSettle (Inr (Some 7)) no_faults, WindowResize] adapter_init) \<noteq> None"
    by (simp del: run_Cons run_Nil)
  with w have d: "onWindowResized (run [ViewInit True, FeaturesSettle None,
       LoadSettle (Inr (Some 7)) no_faults, WindowResize] adapter_init)
     = run [ViewInit True, FeaturesSettle None, LoadSettle (Inr (Some 7)) no_faults,
       WindowResize] adapter_init"
    by blast
  from w c have n: "onWindowResized adapter_init = adapter_init"
    by blast
  from w z o have "refreshes (run ([ViewInit True, FeaturesSettle None,
       LoadSettle (Inr (Some 7)) no_faults]
       @ [WindowResize, WindowResize, WindowResize] @ [AnimationFrame]) adapter_init) = 1"
    by linarith
  with z r d c n show ?thesis by (simp del: run_Cons run_Nil run_append)
qed

theorem ngOnDestroy_idempotent_witness:
  "trace (snd (ngOnDestroy stop_fails
       (run [ViewInit True, FeaturesSettle None, LoadSettle (Inr (Some 7)) no_faults] adapter_init)))
     = [RegisterFeatures, Load, Call Play 7, Call Stop 7]
   \<and> container (snd (ngOnDestroy stop_fails
       (run [ViewInit True, FeaturesSettle None, LoadSettle (Inr (Some 7)) no_faults] adapter_init)))
     = None
   \<and> trace (snd (ngOnDestroy no_faults (snd (ngOnDestroy stop_fails
       (run [ViewInit True, FeaturesSettle None, LoadSettle (Inr (Some 7)) no_faults] adapter_init)))))
     = [RegisterFeatures, Load, Call Play 7, Call Stop 7]"
proof -
  have t: "trace (snd (ngOnDestroy stop_fails
       (run [ViewInit True, FeaturesSettle None, LoadSettle (Inr (Some 7)) no_faults] adapter_init)))
     = [RegisterFeatures, Load, Call Play 7, Call Stop 7]"
    by code_simp
  from ngOnDestroy_idempotent [of no_faults stop_fails
      "run [ViewInit True, FeaturesSettle None, LoadSettle (Inr (Some 7)) no_faults] adapter_init"] t
  show ?thesis by simp
qed

subsection \<open>Particle motion extensions\<close>

lemma update_rockerSmooth_enabled:
  "rockerSmooth_isEnabled p \<Longrightarrow>
   update_rockerSmooth A rnd p delta =
     p\<lparr>rock := Some (num_add A
                     (coalesce (rock p)
                        (num_mul A rnd (coalesce (periodSec (smooth_cfg p)) (num_lit A 4))))
                     (num_div A delta (num_lit A 1000))),
       rotation := to_radians A (smooth_deg A (smooth_cfg p)
          (num_add A
             (coalesce (rock p)
                (num_mul A rnd (coalesce (periodSec (smooth_cfg p)) (num_lit A 4))))
             (num_div A delta (num_lit A 1000))))\<rparr>"
  by (simp add: update_rockerSmooth_def to_radians_def Let_def)

lemma update_rockerStep_enabled:
  "rockerStep_isEnabled q \<Longrightarrow>
   update_rockerStep A q delta =
     q\<lparr>rockStep := Some (num_add A (coalesce (rockStep q) (num_lit A 0))
                         (num_div A delta (num_lit A 1000))),
       rotation := to_radians A (step_deg A (step_cfg q)
          (num_add A (coalesce (rockStep q) (num_lit A 0))
             (num_div A delta (num_lit A 1000))))\<rparr>"
  by (simp add: update_rockerStep_def to_radians_def Let_def)

lemma update_rockerSmooth_keeps:
  "rockerSmooth_isEnabled (update_rockerSmooth A rnd p delta) = rockerSmooth_isEnabled p"
  "smooth_cfg (update_rockerSmooth A rnd p delta) = smooth_cfg p"
  by (simp_all add: update_rockerSmooth_def rockerSmooth_isEnabled_def smooth_cfg_def Let_def)

lemma update_rockerStep_keeps:
  "rockerStep_isEnabled (update_rockerStep A q delta) = rockerStep_isEnabled q"
  "step_cfg (update_rockerStep A q delta) = step_cfg q"
  by (simp_all add: update_rockerStep_def rockerStep_isEnabled_def step_cfg_def Let_def)

text \<open>The stepped angle below the hold duration and at it.\<close>

lemma step_deg_low:
  assumes "ordered_arith A"
    and "hold = coalesce (holdSec cfg) (num_lit A 2)"
    and "num_lt A hold (num_mul A (num_lit A 2) hold)"
    and "\<not> num_lt A u (num_lit A 0)" and "num_lt A u hold"
  shows "step_deg A cfg u = coalesce (lowDeg cfg) (num_lit A 0)"
proof -
  have "num_lt A u (num_mul A (num_lit A 2) hold)"
    using assms(1,3,5) unfolding ordered_arith_def by blast
  with assms(1,4) have "num_rem A u (num_mul A (num_lit A 2) hold) = u"
    unfolding ordered_arith_def by blast
  with assms(2,5) show ?thesis
    by (simp add: step_deg_def Let_def)
qed

lemma step_deg_high:
  assumes "ordered_arith A"
    and "hold = coalesce (holdSec cfg) (num_lit A 2)"
    and "num_lt A (num_lit A 0) hold"
    and "num_lt A hold (num_mul A (num_lit A 2) hold)"
  shows "step_deg A cfg hold = coalesce (highDeg cfg) (num_lit A 30)"
proof -
  have irr: "\<not> num_lt A hold hold"
    using assms(1) unfolding ordered_arith_def by blast
  have "\<not> num_lt A hold (num_lit A 0)"
  proof
    assume "num_lt A hold (num_lit A 0)"
    with assms(1,3) have "num_lt A hold hold"
      unfolding ordered_arith_def by blast
    with irr show False ..
  qed
  with assms(1,4) have "num_rem A hold (num_mul A (num_lit A 2) hold) = hold"
    unfolding ordered_arith_def by blast
  with assms(2) irr show ?thesis
    by (simp add: step_deg_def Let_def)
qed

text \<open>The arithmetic of the examples.\<close>

lemma exact_arith_ops [simp]:
  "num_lit exact_arith = of_int" "num_pi exact_arith = pi"
  "num_add exact_arith = (+)" "num_sub exact_arith = (-)" "num_mul exact_arith = (*)"
  "num_div exact_arith = (/)" "num_rem exact_arith = real_rem" "num_sin exact_arith = sin"
  "num_lt exact_arith = (<)"
  by (simp_all add: exact_arith_def)

lemma real_rem_small: "0 \<le> x \<Longrightarrow> x < y \<Longrightarrow> real_rem x y = x"
proof -
  assume a: "0 \<le> x" "x < y"
  then have q: "0 \<le> x / y" "x / y < 1" by simp_all
  then have "\<lfloor>x / y\<rfloor> = 0" by linarith
  with q(1) show ?thesis by (simp add: real_rem_def)
qed

lemma ordered_exact_arith: "ordered_arith exact_arith"
  by (simp add: ordered_arith_def real_rem_small)

lemma leaf_facts:
  "rockerSmooth_isEnabled leaf" "smooth_cfg leaf = \<lparr>rs_enabled = Some True, minDeg = Some 0,
     maxDeg = Some 25, periodSec = Some 3\<rparr>" "rock leaf = None" "rockStep leaf = None"
  by (simp_all add: leaf_def rockerSmooth_isEnabled_def smooth_cfg_def coalesce_def)

lemma stepper_facts:
  "rockerStep_isEnabled stepper" "step_cfg stepper = \<lparr>st_enabled = Some True, lowDeg = Some 10,
     highDeg = Some 40, holdSec = Some 2\<rparr>" "rockStep stepper = None" "rock stepper = None"
  by (simp_all add: stepper_def rockerStep_isEnabled_def step_cfg_def coalesce_def)

text \<open>
  C7, as the specification states it, fails for the smooth oscillation: the clock starts
  at a random phase, not at 0. For the leaf of the component (0 to 25 degrees, period 3
  seconds) with \<open>Math.random()\<close> returning 1/4, after three frames of 1000 ms, one full
  period of elapsed time, the clock reads 3.75 and the rotation is that of 25 degrees,
  the upper bound, and not that of the centre, 12.5 degrees.
\<close>

theorem smooth_full_period_counterexample:
  "rock (update_rockerSmooth exact_arith (1 / 4)
          (update_rockerSmooth exact_arith (1 / 4)
             (update_rockerSmooth exact_arith (1 / 4) leaf 1000) 1000) 1000)
     = Some (15 / 4)
   \<and> rotation (update_rockerSmooth exact_arith (1 / 4)
          (update_rockerSmooth exact_arith (1 / 4)
             (update_rockerSmooth exact_arith (1 / 4) leaf 1000) 1000) 1000)
     = to_radians exact_arith 25
   \<and> rotation (update_rockerSmooth exact_arith (1 / 4)
          (update_rockerSmooth exact_arith (1 / 4)
             (update_rockerSmooth exact_arith (1 / 4) leaf 1000) 1000) 1000)
     \<noteq> to_radians exact_arith ((0 + 25) / 2)"
proof -
  let ?p1 = "update_rockerSmooth exact_arith (1 / 4) leaf 1000"
  let ?p2 = "update_rockerSmooth exact_arith (1 / 4) ?p1 1000"
  let ?p3 = "update_rockerSmooth exact_arith (1 / 4) ?p2 1000"
  have r1: "rock ?p1 = Some (7 / 4)"
    by (simp add: update_rockerSmooth_enabled leaf_facts coalesce_def)
  have e1: "rockerSmooth_isEnabled ?p1" "smooth_cfg ?p1 = smooth_cfg leaf"
    by (simp_all add: update_rockerSmooth_keeps leaf_facts)
  have r2: "rock ?p2 = Some (11 / 4)"
    by (simp add: update_rockerSmooth_enabled e1 r1 coalesce_def)
  have e2: "rockerSmooth_isEnabled ?p2" "smooth_cfg ?p2 = smooth_cfg leaf"
    by (simp_all add: update_rockerSmooth_keeps leaf_facts)
  have r3: "rock ?p3 = Some (15 / 4)"
    by (simp add: update_rockerSmooth_enabled e2 r2 coalesce_def)
  have "2 * pi / 3 * (15 / 4) = pi / 2 + 2 * pi" by simp
  then have one: "sin (2 * pi / 3 * (15 / 4)) = 1"
    by (simp only: sin_periodic sin_pi_half)
  have "smooth_deg exact_arith (smooth_cfg leaf) (15 / 4) = 25"
    using one by (simp add: smooth_deg_def leaf_facts coalesce_def Let_def)
  then have rot: "rotation ?p3 = to_radians exact_arith 25"
    by (simp add: update_rockerSmooth_enabled e2 r2 coalesce_def)
  show ?thesis by (simp add: r3 rot to_radians_def)
qed

text \<open>
  C7, amended. In every arithmetic: the clock of the smooth oscillation is the random
  initial phase (\<open>Math.random()\<close> times the period) plus the elapsed seconds, and the
  rotation written is the conversion to radians of the centre angle, the midpoint of
  the configured bounds, plus half their distance times the sine of \<open>2 pi\<close> over the
  period times the clock; so the elapsed time alone does not tell the rotation. For
  the stepped oscillation, in every arithmetic with the three facts above and for a
  positive hold duration below its double: while the accumulated clock is not negative
  and below the hold duration the rotation is the low bound in radians, and when the
  clock is exactly the hold duration it is the high bound in radians.
\<close>

theorem rocker_oscillation:
  assumes "ordered_arith A"
    and "rockerSmooth_isEnabled p"
    and "a0 = coalesce (minDeg (smooth_cfg p)) (num_lit A 0)"
    and "a1 = coalesce (maxDeg (smooth_cfg p)) (num_lit A 30)"
    and "period = coalesce (periodSec (smooth_cfg p)) (num_lit A 4)"
    and "t = num_add A (coalesce (rock p) (num_mul A rnd period))
               (num_div A delta (num_lit A 1000))"
    and "rockerStep_isEnabled q"
    and "hold = coalesce (holdSec (step_cfg q)) (num_lit A 2)"
    and "num_lt A (num_lit A 0) hold"
    and "num_lt A hold (num_mul A (num_lit A 2) hold)"
    and "u = num_add A (coalesce (rockStep q) (num_lit A 0)) (num_div A d (num_lit A 1000))"
  shows "rock (update_rockerSmooth A rnd p delta) = Some t
       \<and> rotation (update_rockerSmooth A rnd p delta)
           = to_radians A
               (num_add A (num_div A (num_add A a0 a1) (num_lit A 2))
                  (num_mul A (num_div A (num_sub A a1 a0) (num_lit A 2))
                     (num_sin A
                        (num_mul A (num_div A (num_mul A (num_lit A 2) (num_pi A)) period) t))))
       \<and> rockStep (update_rockerStep A q d) = Some u
       \<and> (\<not> num_lt A u (num_lit A 0) \<and> num_lt A u hold \<longrightarrow>
            rotation (update_rockerStep A q d)
              = to_radians A (coalesce (lowDeg (step_cfg q)) (num_lit A 0)))
       \<and> (u = hold \<longrightarrow>
            rotation (update_rockerStep A q d)
              = to_radians A (coalesce (highDeg (step_cfg q)) (num_lit A 30)))"
proof -
  have a: "rock (update_rockerSmooth A rnd p delta) = Some t"
    using assms(2,5,6) by (simp add: update_rockerSmooth_enabled)
  have b: "rotation (update_rockerSmooth A rnd p delta)
           = to_radians A
               (num_add A (num_div A (num_add A a0 a1) (num_lit A 2))
                  (num_mul A (num_div A (num_sub A a1 a0) (num_lit A 2))
                     (num_sin A
                        (num_mul A (num_div A (num_mul A (num_lit A 2) (num_pi A)) period) t))))"
    using assms(2-6) by (simp add: update_rockerSmooth_enabled smooth_deg_def Let_def)
  have c: "rockStep (update_rockerStep A q d) = Some u"
    using assms(7,11) by (simp add: update_rockerStep_enabled)
  have r: "rotation (update_rockerStep A q d) = to_radians A (step_deg A (step_cfg q) u)"
    using assms(7,11) by (simp add: update_rockerStep_enabled)
  have lo: "rotation (update_rockerStep A q d)
              = to_radians A (coalesce (lowDeg (step_cfg q)) (num_lit A 0))"
    if "\<not> num_lt A u (num_lit A 0) \<and> num_lt A u hold"
    using that r step_deg_low [OF assms(1,8,10), of u] by simp
  have hi: "rotation (update_rockerStep A q d)
              = to_radians A (coalesce (highDeg (step_cfg q)) (num_lit A 30))"
    if "u = hold"
    using that r step_deg_high [OF assms(1,8,9,10)] by simp
  from a b c lo hi show ?thesis by blast
qed

theorem rocker_oscillation_witness:
  "rock (update_rockerSmooth exact_arith (1 / 4) leaf 1000) = Some (1 / 4 * 3 + 1000 / 1000)
   \<and> rotation (update_rockerSmooth exact_arith (1 / 4) leaf 1000)
       = ((0 + 25) / 2 + (25 - 0) / 2 * sin (2 * pi / 3 * (1 / 4 * 3 + 1000 / 1000))) * pi / 180
   \<and> rockStep (update_rockerStep exact_arith stepper 2000) = Some 2
   \<and> rotation (update_rockerStep exact_arith stepper 2000) = 40 * pi / 180
   \<and> rockStep (update_rockerStep exact_arith stepper 1000) = Some 1
   \<and> rotation (update_rockerStep exact_arith stepper 1000) = 10 * pi / 180"
proof -
  have c: "smooth_cfg leaf = \<lparr>rs_enabled = Some True, minDeg = Some 0, maxDeg = Some 25,
      periodSec = Some 3\<rparr>"
    by (rule leaf_facts)
  have s: "step_cfg stepper = \<lparr>st_enabled = Some True, lowDeg = Some 10, highDeg = Some 40,
      holdSec = Some 2\<rparr>"
    by (rule stepper_facts)
  have h3: "(0::real) = coalesce (minDeg (smooth_cfg leaf)) (num_lit exact_arith 0)"
    by (simp add: c coalesce_def)
  have h4: "(25::real) = coalesce (maxDeg (smooth_cfg leaf)) (num_lit exact_arith 30)"
    by (simp add: c coalesce_def)
  have h5: "(3::real) = coalesce (periodSec (smooth_cfg leaf)) (num_lit exact_arith 4)"
    by (simp add: c coalesce_def)
  have h6: "(1 / 4 * 3 + 1000 / 1000::real)
      = num_add exact_arith (coalesce (rock leaf) (num_mul exact_arith (1 / 4) 3))
          (num_div exact_arith 1000 (num_lit exact_arith 1000))"
    by (simp add: leaf_facts coalesce_def)
  have h8: "(2::real) = coalesce (holdSec (step_cfg stepper)) (num_lit exact_arith 2)"
    by (simp add: s coalesce_def)
  have h9: "num_lt exact_arith (num_lit exact_arith 0) (2::real)"
    by simp
  have h10: "num_lt exact_arith (2::real) (num_mul exact_arith (num_lit exact_arith 2) 2)"
    by simp
  have h11: "(2::real) = num_add exact_arith (coalesce (rockStep stepper) (num_lit exact_arith 0))
      (num_div exact_arith 2000 (num_lit exact_arith 1000))"
    by (simp add: stepper_facts coalesce_def)
  have h11': "(1::real) = num_add exact_arith (coalesce (rockStep stepper) (num_lit exact_arith 0))
      (num_div exact_arith 1000 (num_lit exact_arith 1000))"
    by (simp add: stepper_facts coalesce_def)
  note w1 = rocker_oscillation [OF ordered_exact_arith leaf_facts(1) h3 h4 h5 h6
      stepper_facts(1) h8 h9 h10 h11]
  note w2 = rocker_oscillation [OF ordered_exact_arith leaf_facts(1) h3 h4 h5 h6
      stepper_facts(1) h8 h9 h10 h11']
  from w1 have a: "rock (update_rockerSmooth exact_arith (1 / 4) leaf 1000)
      = Some (1 / 4 * 3 + 1000 / 1000)"
    by blast
  from w1 have b: "rotation (update_rockerSmooth exact_arith (1 / 4) leaf 1000)
       = ((0 + 25) / 2 + (25 - 0) / 2 * sin (2 * pi / 3 * (1 / 4 * 3 + 1000 / 1000))) * pi / 180"
    by (simp add: to_radians_def)
  from w1 have d: "rockStep (update_rockerStep exact_arith stepper 2000) = Some 2"
    by blast
  from w1 have e: "rotation (update_rockerStep exact_arith stepper 2000) = 40 * pi / 180"
    by (simp add: s coalesce_def to_radians_def)
  from w2 have f: "rockStep (update_rockerStep exact_arith stepper 1000) = Some 1"
    by blast
  from w2 have g: "rotation (update_rockerStep exact_arith stepper 1000) = 10 * pi / 180"
    by (simp add: s coalesce_def to_radians_def)
  from a b d e f g show ?thesis by blast
qed

text \<open>
  C9. In every arithmetic, both updaters convert the frame's delta from milliseconds to
  seconds before they add it to the particle's clock, and convert the angle they
  compute in degrees to radians before they write it as the rotation; the stepped
  angle is one of the two configured bounds. Each updater writes its own clock and
  leaves the other's alone.
\<close>

theorem rocker_units:
  assumes "rockerSmooth_isEnabled p"
    and "t0 = coalesce (rock p)
                (num_mul A rnd (coalesce (periodSec (smooth_cfg p)) (num_lit A 4)))"
    and "rockerStep_isEnabled q"
    and "u0 = coalesce (rockStep q) (num_lit A 0)"
  shows "rock (update_rockerSmooth A rnd p delta) = Some (num_add A t0 (to_seconds A delta))
       \<and> rotation (update_rockerSmooth A rnd p delta)
           = to_radians A (smooth_deg A (smooth_cfg p) (num_add A t0 (to_seconds A delta)))
       \<and> rockStep (update_rockerSmooth A rnd p delta) = rockStep p
       \<and> rockStep (update_rockerStep A q d) = Some (num_add A u0 (to_seconds A d))
       \<and> rotation (update_rockerStep A q d)
           = to_radians A (step_deg A (step_cfg q) (num_add A u0 (to_seconds A d)))
       \<and> (rotation (update_rockerStep A q d)
             = to_radians A (coalesce (lowDeg (step_cfg q)) (num_lit A 0))
          \<or> rotation (update_rockerStep A q d)
             = to_radians A (coalesce (highDeg (step_cfg q)) (num_lit A 30)))
       \<and> rock (update_rockerStep A q d) = rock q"
proof -
  have s: "step_deg A (step_cfg q) x = coalesce (lowDeg (step_cfg q)) (num_lit A 0)
         \<or> step_deg A (step_cfg q) x = coalesce (highDeg (step_cfg q)) (num_lit A 30)" for x
    by (simp add: step_deg_def Let_def)
  have r: "rotation (update_rockerStep A q d)
           = to_radians A (step_deg A (step_cfg q) (num_add A u0 (to_seconds A d)))"
    using assms(3,4) by (simp add: update_rockerStep_enabled to_seconds_def)
  have b: "rotation (update_rockerStep A q d)
             = to_radians A (coalesce (lowDeg (step_cfg q)) (num_lit A 0))
          \<or> rotation (update_rockerStep A q d)
             = to_radians A (coalesce (highDeg (step_cfg q)) (num_lit A 30))"
    using s [of "num_add A u0 (to_seconds A d)"] r by auto
  from assms r b show ?thesis
    by (simp add: update_rockerSmooth_enabled update_rockerStep_enabled to_seconds_def)
qed

theorem rocker_units_witness:
  "rock (update_rockerSmooth exact_arith (1 / 2) leaf 500) = Some (1 / 2 * 3 + 500 / 1000)
   \<and> rotation (update_rockerSmooth exact_arith (1 / 2) leaf 500)
       = ((0 + 25) / 2 + (25 - 0) / 2 * sin (2 * pi / 3 * (1 / 2 * 3 + 500 / 1000))) * pi / 180
   \<and> rockStep (update_rockerStep exact_arith (update_rockerStep exact_arith stepper 500) 250)
       = Some (500 / 1000 + 250 / 1000)
   \<and> rotation (update_rockerStep exact_arith (update_rockerStep exact_arith stepper 500) 250)
       = 10 * pi / 180"
proof -
  have c: "smooth_cfg leaf = \<lparr>rs_enabled = Some True, minDeg = Some 0, maxDeg = Some 25,
      periodSec = Some 3\<rparr>"
    by (rule leaf_facts)
  have s: "step_cfg stepper = \<lparr>st_enabled = Some True, lowDeg = Some 10, highDeg = Some 40,
      holdSec = Some 2\<rparr>"
    by (rule stepper_facts)
  let ?q = "update_rockerStep exact_arith stepper 500"
  have q: "rockerStep_isEnabled ?q" "step_cfg ?q = step_cfg stepper"
    by (simp_all add: update_rockerStep_keeps stepper_facts)
  have q0: "rockStep ?q = Some (500 / 1000)"
    by (simp add: update_rockerStep_enabled stepper_facts coalesce_def)
  note w = rocker_units [OF leaf_facts(1) refl q(1) refl, of exact_arith "1 / 2" 500 250]
  from w have a: "rock (update_rockerSmooth exact_arith (1 / 2) leaf 500)
      = Some (1 / 2 * 3 + 500 / 1000)"
    by (simp add: c leaf_facts coalesce_def to_seconds_def)
  from w have b: "rotation (update_rockerSmooth exact_arith (1 / 2) leaf 500)
       = ((0 + 25) / 2 + (25 - 0) / 2 * sin (2 * pi / 3 * (1 / 2 * 3 + 500 / 1000))) * pi / 180"
    by (simp add: c leaf_facts coalesce_def to_seconds_def to_radians_def smooth_deg_def Let_def)
  from w have d: "rockStep (update_rockerStep exact_arith ?q 250) = Some (500 / 1000 + 250 / 1000)"
    by (simp add: q0 coalesce_def to_seconds_def)
  have "step_deg exact_arith (step_cfg stepper) (3 / 4) = 10"
    by (simp add: step_deg_def s coalesce_def Let_def real_rem_small)
  with w have e: "rotation (update_rockerStep exact_arith ?q 250) = 10 * pi / 180"
    by (simp add: q q0 coalesce_def to_seconds_def to_radians_def)
  from a b d e show ?thesis by blast
qed

end
